theory Spec2Isabelle
  imports Main
begin

section \<open>Strings and numbers of the host language\<close>

text \<open>
  A \<^typ>\<open>string\<close> stands for a JavaScript string whose code units are all below 256;
  one \<^typ>\<open>char\<close> is one code unit. Of those code units, \<open>String.prototype.trim\<close>
  removes U+0009 to U+000D, U+0020 and U+00A0 from both ends.
\<close>

definition is_whitespace :: "char \<Rightarrow> bool" where
  "is_whitespace c =
     (let n = (of_char c :: nat) in (9 \<le> n \<and> n \<le> 13) \<or> n = 32 \<or> n = 160)"

definition trim :: "string \<Rightarrow> string" where
  "trim s = rev (dropWhile is_whitespace (rev (dropWhile is_whitespace s)))"

text \<open>
  Task identifiers, HTTP status codes and integer JSON numbers are JavaScript numbers
  holding integers. Interpolating such a number into a template literal
  (\<^verbatim>\<open>`toggle-${task.id}`\<close>) yields its decimal numeral, with a leading minus sign for a
  negative value.
\<close>

definition digit :: "nat \<Rightarrow> char" where
  "digit d = char_of (48 + d)"

function decimal :: "nat \<Rightarrow> string" where
  "decimal n = (if n < 10 then [digit n] else decimal (n div 10) @ [digit (n mod 10)])"
  by pat_completeness auto
termination
  by (relation "measure (\<lambda>n. n)") auto

declare decimal.simps [simp del]

definition number_toString :: "int \<Rightarrow> string" where
  "number_toString i =
     (if i < 0 then CHR ''-'' # decimal (nat (- i)) else decimal (nat i))"

section \<open>frontend/lib/api.ts: the task entity and the remote calls\<close>

text \<open>The interface \<open>Task\<close>; its field \<open>id\<close> is named \<open>task_id\<close> here.\<close>

record Task =
  task_id :: int
  title :: string
  is_completed :: bool
  user_id :: string
  created_at :: string
  updated_at :: string

text \<open>
  The \<open>Partial<Task>\<close> payloads that the task item sends, and the two remote calls
  \<open>updateTask(id, updates)\<close> and \<open>deleteTask(id)\<close> that it wraps into queue actions.
\<close>

datatype updates = Is_completed bool | Title string

datatype request = UpdateTask int updates | DeleteTask int

section \<open>frontend/components/TaskItem.tsx: queue keys\<close>

text \<open>
  The keys of the three \<open>taskUpdateQueue.enqueue\<close> calls: \<^verbatim>\<open>`toggle-${task.id}`\<close> in
  \<open>handleToggleCompletion\<close>, \<^verbatim>\<open>`edit-${task.id}`\<close> in \<open>handleEditSave\<close> and
  \<^verbatim>\<open>`delete-${task.id}`\<close> in \<open>handleDelete\<close>.
\<close>

definition toggle_key :: "Task \<Rightarrow> string" where
  "toggle_key t = ''toggle-'' @ number_toString (task_id t)"

definition edit_key :: "Task \<Rightarrow> string" where
  "edit_key t = ''edit-'' @ number_toString (task_id t)"

definition delete_key :: "Task \<Rightarrow> string" where
  "delete_key t = ''delete-'' @ number_toString (task_id t)"

section \<open>frontend/app/page.tsx: the visible list\<close>

text \<open>
  The page keeps the visible tasks in \<open>useState<Task[]>\<close> and hands each task item the
  two callbacks below as \<open>onTaskUpdated\<close> and \<open>onTaskDeleted\<close>.
\<close>

definition handleTaskUpdated :: "Task \<Rightarrow> Task list \<Rightarrow> Task list" where
  "handleTaskUpdated updatedTask prevTasks =
     map (\<lambda>t. if task_id t = task_id updatedTask then updatedTask else t) prevTasks"

definition handleTaskDeleted :: "int \<Rightarrow> Task list \<Rightarrow> Task list" where
  "handleTaskDeleted taskId prevTasks = filter (\<lambda>t. task_id t \<noteq> taskId) prevTasks"

section \<open>frontend/components/TaskItem.tsx: the task item\<close>

text \<open>
  An async handler runs synchronously up to its \<open>await taskUpdateQueue.enqueue(...)\<close> and
  is resumed when that promise settles. What a suspended handler still needs is what its
  closure captured: \<open>previousState\<close> for the toggle, the \<open>task\<close> prop for the edit
  (\<open>task.title\<close> in the catch block) and for the delete (\<open>task.id\<close> after the await).
\<close>

datatype suspended = AwaitToggle bool | AwaitEdit Task | AwaitDelete Task

datatype callback = OnTaskUpdated Task | OnTaskDeleted int

text \<open>
  The state of one mounted task item together with what it acts upon: the page's list
  \<open>tasks\<close>, the prop \<open>task\<close> (the element of that list which this item renders), the five
  \<open>useState\<close> cells (\<open>title\<close> is named \<open>title_state\<close>, the entity owns the name), the
  suspended handler invocations, and three logs: the calls of \<open>taskUpdateQueue.enqueue\<close>
  (key and the remote call the action performs), the callbacks invoked, and what
  \<open>console.error\<close> wrote (label and error message). A handler reads the values of the
  latest render, which are the current ones: React re-renders after each discrete event
  before the next is handled.
\<close>

record app =
  tasks :: "Task list"
  task :: Task
  isEditing :: bool
  title_state :: string
  isCompleted :: bool
  showDeleteConfirm :: bool
  isUpdating :: bool
  awaiting :: "suspended list"
  enqueued :: "(string \<times> request) list"
  notified :: "callback list"
  console_error :: "(string \<times> string) list"

definition mount :: "Task list \<Rightarrow> Task \<Rightarrow> app" where
  "mount ts t =
     \<lparr>tasks = ts, task = t, isEditing = False, title_state = title t,
      isCompleted = is_completed t, showDeleteConfirm = False, isUpdating = False,
      awaiting = [], enqueued = [], notified = [], console_error = []\<rparr>"

text \<open>
  The callbacks as wired in page.tsx. After \<open>handleTaskUpdated\<close> the item is rendered
  with the mapped element of the list as its new prop.
\<close>

definition onTaskUpdated :: "Task \<Rightarrow> app \<Rightarrow> app" where
  "onTaskUpdated updatedTask s =
     s\<lparr>tasks := handleTaskUpdated updatedTask (tasks s),
       task := (if task_id (task s) = task_id updatedTask then updatedTask else task s),
       notified := notified s @ [OnTaskUpdated updatedTask]\<rparr>"

definition onTaskDeleted :: "int \<Rightarrow> app \<Rightarrow> app" where
  "onTaskDeleted taskId s =
     s\<lparr>tasks := handleTaskDeleted taskId (tasks s),
       notified := notified s @ [OnTaskDeleted taskId]\<rparr>"

text \<open>\<open>handleToggleCompletion\<close>, up to the await, and its resumption.\<close>

definition handleToggleCompletion :: "app \<Rightarrow> app" where
  "handleToggleCompletion s =
     (if isUpdating s then s
      else
        (let previousState = isCompleted s in
         s\<lparr>isUpdating := True,
           isCompleted := \<not> isCompleted s,
           enqueued := enqueued s @
             [(toggle_key (task s),
               UpdateTask (task_id (task s)) (Is_completed (\<not> previousState)))],
           awaiting := awaiting s @ [AwaitToggle previousState]\<rparr>))"

definition handleToggleCompletion_settled :: "bool \<Rightarrow> string + Task \<Rightarrow> app \<Rightarrow> app" where
  "handleToggleCompletion_settled previousState outcome s =
     (case outcome of
        Inr updatedTask \<Rightarrow>
          (onTaskUpdated updatedTask (s\<lparr>isCompleted := is_completed updatedTask\<rparr>))
            \<lparr>isUpdating := False\<rparr>
      | Inl err \<Rightarrow>
          s\<lparr>console_error := console_error s @ [(''Failed to update task completion:'', err)],
            isCompleted := previousState,
            isUpdating := False\<rparr>)"

definition handleEditStart :: "app \<Rightarrow> app" where
  "handleEditStart s = s\<lparr>isEditing := True, title_state := title (task s)\<rparr>"

definition handleEditCancel :: "app \<Rightarrow> app" where
  "handleEditCancel s = s\<lparr>isEditing := False, title_state := title (task s)\<rparr>"

text \<open>\<open>handleEditSave\<close>, up to the await, and its resumption.\<close>

definition handleEditSave :: "app \<Rightarrow> app" where
  "handleEditSave s =
     (if isUpdating s \<or> trim (title_state s) = ''''
      then s\<lparr>title_state := title (task s), isEditing := False\<rparr>
      else
        s\<lparr>isUpdating := True,
          enqueued := enqueued s @
            [(edit_key (task s),
              UpdateTask (task_id (task s)) (Title (trim (title_state s))))],
          awaiting := awaiting s @ [AwaitEdit (task s)]\<rparr>)"

definition handleEditSave_settled :: "Task \<Rightarrow> string + Task \<Rightarrow> app \<Rightarrow> app" where
  "handleEditSave_settled task0 outcome s =
     (case outcome of
        Inr updatedTask \<Rightarrow>
          (onTaskUpdated updatedTask s)\<lparr>isEditing := False, isUpdating := False\<rparr>
      | Inl err \<Rightarrow>
          s\<lparr>console_error := console_error s @ [(''Failed to update task title:'', err)],
            title_state := title task0,
            isEditing := False,
            isUpdating := False\<rparr>)"

text \<open>
  \<open>handleDelete\<close>, up to the await, and its resumption. It has no finally block: after a
  successful deletion \<open>isUpdating\<close> stays set.
\<close>

definition handleDelete :: "app \<Rightarrow> app" where
  "handleDelete s =
     (if isUpdating s then s
      else
        s\<lparr>isUpdating := True,
          enqueued := enqueued s @ [(delete_key (task s), DeleteTask (task_id (task s)))],
          awaiting := awaiting s @ [AwaitDelete (task s)]\<rparr>)"

definition handleDelete_settled :: "Task \<Rightarrow> string + unit \<Rightarrow> app \<Rightarrow> app" where
  "handleDelete_settled task0 outcome s =
     (case outcome of
        Inr _ \<Rightarrow> (onTaskDeleted (task_id task0) s)\<lparr>showDeleteConfirm := False\<rparr>
      | Inl err \<Rightarrow>
          s\<lparr>console_error := console_error s @ [(''Failed to delete task:'', err)],
            isUpdating := False\<rparr>)"

definition handleKeyDown :: "string \<Rightarrow> app \<Rightarrow> app" where
  "handleKeyDown k s =
     (if k = ''Enter'' then handleEditSave s
      else if k = ''Escape'' then handleEditCancel s
      else s)"

text \<open>
  What the item renders: the check box follows \<open>isCompleted\<close>; the title is the input's
  value while editing and \<open>task.title\<close> otherwise.
\<close>

definition rendered_title :: "app \<Rightarrow> string" where
  "rendered_title s = (if isEditing s then title_state s else title (task s))"

text \<open>
  The events of one task item: the user's actions on the rendered elements and the
  settlement of a suspended handler's promise, given by its position among the suspended
  invocations and by the outcome of the remote call (\<open>Inl\<close> the message of the error
  thrown, \<open>Inr\<close> the value returned). No event is excluded by the disabled attributes of the buttons: every
  handler may be invoked in every state.
\<close>

datatype event =
    ToggleClick
  | TitleClick
  | InputChange string
  | InputKeyDown string
  | InputBlur
  | SaveClick
  | CancelClick
  | DeleteClick
  | DialogCancelClick
  | DialogDeleteClick
  | UpdateSettled nat "string + Task"
  | DeleteSettled nat "string + unit"

definition drop_nth :: "nat \<Rightarrow> 'a list \<Rightarrow> 'a list" where
  "drop_nth i xs = take i xs @ drop (Suc i) xs"

fun step :: "event \<Rightarrow> app \<Rightarrow> app" where
  "step ToggleClick s = handleToggleCompletion s"
| "step TitleClick s = handleEditStart s"
| "step (InputChange v) s = s\<lparr>title_state := v\<rparr>"
| "step (InputKeyDown k) s = handleKeyDown k s"
| "step InputBlur s = handleEditCancel s"
| "step SaveClick s = handleEditSave s"
| "step CancelClick s = handleEditCancel s"
| "step DeleteClick s = (if isUpdating s then s else s\<lparr>showDeleteConfirm := True\<rparr>)"
| "step DialogCancelClick s = s\<lparr>showDeleteConfirm := False\<rparr>"
| "step DialogDeleteClick s = handleDelete s"
| "step (UpdateSettled i outcome) s =
     (if i < length (awaiting s) then
        (case awaiting s ! i of
           AwaitToggle previousState \<Rightarrow>
             handleToggleCompletion_settled previousState outcome
               (s\<lparr>awaiting := drop_nth i (awaiting s)\<rparr>)
         | AwaitEdit task0 \<Rightarrow>
             handleEditSave_settled task0 outcome (s\<lparr>awaiting := drop_nth i (awaiting s)\<rparr>)
         | AwaitDelete task0 \<Rightarrow> s)
      else s)"
| "step (DeleteSettled i outcome) s =
     (if i < length (awaiting s) then
        (case awaiting s ! i of
           AwaitDelete task0 \<Rightarrow>
             handleDelete_settled task0 outcome (s\<lparr>awaiting := drop_nth i (awaiting s)\<rparr>)
         | _ \<Rightarrow> s)
      else s)"

fun run :: "event list \<Rightarrow> app \<Rightarrow> app" where
  "run [] s = s"
| "run (e # es) s = run es (step e s)"

fun is_settlement :: "event \<Rightarrow> bool" where
  "is_settlement (UpdateSettled i outcome) = True"
| "is_settlement (DeleteSettled i outcome) = True"
| "is_settlement e = False"

fun is_delete_success :: "event \<Rightarrow> bool" where
  "is_delete_success (DeleteSettled i (Inr u)) = True"
| "is_delete_success e = False"

text \<open>
  The invariant of the re-entrancy guard: at most one handler invocation is suspended,
  and while one is, \<open>isUpdating\<close> is set.
\<close>

definition guarded :: "app \<Rightarrow> bool" where
  "guarded s = (length (awaiting s) \<le> 1 \<and> (awaiting s = [] \<or> isUpdating s))"

text \<open>
  A task and two answers of the server to a toggle or rename of it, for concrete runs:
  one with another title, one in which the task is completed.
\<close>

definition sample_task :: Task where
  "sample_task =
     \<lparr>task_id = 42, title = ''Buy milk'', is_completed = False, user_id = ''u1'',
      created_at = ''2026-01-01'', updated_at = ''2026-01-01''\<rparr>"

definition sample_answer :: Task where
  "sample_answer =
     \<lparr>task_id = 42, title = ''Buy oat milk'', is_completed = False, user_id = ''u1'',
      created_at = ''2026-01-01'', updated_at = ''2026-01-02''\<rparr>"


section \<open>frontend/lib/api.ts: how a response becomes a value or an error\<close>

text \<open>
  The values that \<open>response.json()\<close> can produce. A number is kept when it is an
  integer; an object keeps its members in the order of the text.
\<close>

datatype json =
    JNull
  | JBoolean bool
  | JNumber int
  | JString string
  | JArray "json list"
  | JObject "(string \<times> json) list"





text \<open>
  \<open>new Error(errorMessage)\<close> converts its argument to a string: a string is itself, an
  array is its elements joined by commas with \<open>null\<close> elements left empty, an object
  parsed from JSON is \<open>[object Object]\<close>.
\<close>

fun ToString :: "json \<Rightarrow> string" and join :: "json list \<Rightarrow> string" where
  "ToString JNull = ''null''"
| "ToString (JBoolean b) = (if b then ''true'' else ''false'')"
| "ToString (JNumber n) = number_toString n"
| "ToString (JString s) = s"
| "ToString (JArray vs) = join vs"
| "ToString (JObject members) = ''[object Object]''"
| "join [] = ''''"
| "join [v] = (if v = JNull then '''' else ToString v)"
| "join (v # w # vs) = (if v = JNull then '''' else ToString v) @ '','' @ join (w # vs)"





section \<open>lib/requestQueue: the keyed serial queue\<close>

text \<open>
  Modelled from the spec: the module lib/requestQueue, which exports \<open>taskUpdateQueue\<close>,
  is not among the sources; only its caller TaskItem.tsx is. The queue holds one lane per
  key, created on the first enqueue for the key and removed when it drains. A lane is the
  FIFO sequence of the actions enqueued under the key and not yet settled; the lane
  executes its first action. Two logs record the order in which actions were started and
  were settled, a settlement with its outcome (success or failure).
\<close>

record 'a queue =
  lanes :: "string \<Rightarrow> 'a list option"
  started :: "(string \<times> 'a) list"
  settled :: "(string \<times> 'a \<times> bool) list"

text \<open>Modelled from the spec: the queue before any enqueue, with no lane.\<close>

definition empty_queue :: "'a queue" where
  "empty_queue = \<lparr>lanes = (\<lambda>k. None), started = [], settled = []\<rparr>"

text \<open>
  Modelled from the spec: \<open>enqueue(key, action)\<close> appends the action to the lane for
  the key; if the lane was idle, execution begins immediately; otherwise the action waits
  behind all previously enqueued, not yet settled actions for the same key.
\<close>

definition enqueue :: "string \<Rightarrow> 'a \<Rightarrow> 'a queue \<Rightarrow> 'a queue" where
  "enqueue k a q =
     (case lanes q k of
        None \<Rightarrow> q\<lparr>lanes := (lanes q)(k \<mapsto> [a]), started := started q @ [(k, a)]\<rparr>
      | Some waiting \<Rightarrow> q\<lparr>lanes := (lanes q)(k \<mapsto> waiting @ [a])\<rparr>)"

text \<open>
  Modelled from the spec: the action that the lane of a key executes settles, with
  success or with failure, which the queue does not tell apart. The lane then starts its
  next action; when its sequence has become empty the lane is removed. The moment of a
  settlement is not the queue's choice: it is an event, free to come after any delay.
\<close>

definition settle :: "string \<Rightarrow> bool \<Rightarrow> 'a queue \<Rightarrow> 'a queue" where
  "settle k success q =
     (case lanes q k of
        None \<Rightarrow> q
      | Some [] \<Rightarrow> q\<lparr>lanes := (lanes q)(k := None)\<rparr>
      | Some (a # rest) \<Rightarrow>
          (if rest = []
           then q\<lparr>lanes := (lanes q)(k := None), settled := settled q @ [(k, a, success)]\<rparr>
           else q\<lparr>lanes := (lanes q)(k \<mapsto> rest),
                  started := started q @ [(k, hd rest)],
                  settled := settled q @ [(k, a, success)]\<rparr>))"

text \<open>
  Modelled from the spec: what happens to a queue, in the order it happens: callers
  enqueue actions under keys, and executing actions settle.
\<close>

datatype 'a queue_event = Enqueue string 'a | Settle string bool

fun queue_step :: "'a queue_event \<Rightarrow> 'a queue \<Rightarrow> 'a queue" where
  "queue_step (Enqueue k a) q = enqueue k a q"
| "queue_step (Settle k success) q = settle k success q"

fun queue_run :: "'a queue_event list \<Rightarrow> 'a queue \<Rightarrow> 'a queue" where
  "queue_run [] q = q"
| "queue_run (e # es) q = queue_run es (queue_step e q)"

text \<open>The actions of one key: as enqueued, as started, as settled, and those in its lane.\<close>

fun enqueued_under :: "string \<Rightarrow> 'a queue_event list \<Rightarrow> 'a list" where
  "enqueued_under k [] = []"
| "enqueued_under k (Enqueue k' a # es) =
     (if k' = k then a # enqueued_under k es else enqueued_under k es)"
| "enqueued_under k (Settle k' success # es) = enqueued_under k es"

definition started_under :: "string \<Rightarrow> 'a queue \<Rightarrow> 'a list" where
  "started_under k q = map snd (filter (\<lambda>entry. fst entry = k) (started q))"

definition settled_under :: "string \<Rightarrow> 'a queue \<Rightarrow> 'a list" where
  "settled_under k q = map (\<lambda>entry. fst (snd entry)) (filter (\<lambda>entry. fst entry = k) (settled q))"

definition lane_of :: "string \<Rightarrow> 'a queue \<Rightarrow> 'a list" where
  "lane_of k q = (case lanes q k of None \<Rightarrow> [] | Some waiting \<Rightarrow> waiting)"

text \<open>
  The invariant of a lane, relative to what has been enqueued under its key: settled
  actions followed by the lane are the enqueued ones in order, the started ones are the
  settled ones and the first of the lane, and a lane that exists is not empty.
\<close>

definition serial :: "string \<Rightarrow> 'a list \<Rightarrow> 'a queue \<Rightarrow> bool" where
  "serial k history q =
     (history = settled_under k q @ lane_of k q
      \<and> started_under k q = settled_under k q @ take 1 (lane_of k q)
      \<and> lanes q k \<noteq> Some [])"

section \<open>Reading a decimal numeral back\<close>



section \<open>Decimal numerals are read back uniquely\<close>










section \<open>Claims about the queue keys\<close>



section \<open>Steps of the task item\<close>

lemma drop_nth_single: "length xs \<le> 1 \<Longrightarrow> i < length xs \<Longrightarrow> drop_nth i xs = []"
  by (cases xs) (auto simp: drop_nth_def)

lemma step_in_flight:
  assumes "isUpdating s" and "\<not> is_settlement e"
  shows "isUpdating (step e s) \<and> isCompleted (step e s) = isCompleted s
         \<and> awaiting (step e s) = awaiting s \<and> enqueued (step e s) = enqueued s"
  using assms
  by (cases e)
     (simp_all add: handleToggleCompletion_def handleEditStart_def handleEditCancel_def
        handleEditSave_def handleDelete_def handleKeyDown_def)

lemma run_in_flight:
  assumes "isUpdating s" and "\<forall>e\<in>set es. \<not> is_settlement e"
  shows "isUpdating (run es s) \<and> isCompleted (run es s) = isCompleted s
         \<and> awaiting (run es s) = awaiting s \<and> enqueued (run es s) = enqueued s"
  using assms
proof (induction es arbitrary: s)
  case Nil
  then show ?case by simp
next
  case (Cons e es)
  from Cons.prems have st: "isUpdating (step e s) \<and> isCompleted (step e s) = isCompleted s
      \<and> awaiting (step e s) = awaiting s \<and> enqueued (step e s) = enqueued s"
    using step_in_flight [of s e] by simp
  moreover from Cons.prems have "\<forall>e\<in>set es. \<not> is_settlement e" by simp
  ultimately show ?case
    using Cons.IH [of "step e s"] by simp
qed

section \<open>Claims about the optimistic toggle\<close>

text \<open>
  Claim C2. Let the completion flag shown by a task item be \<open>b\<close> and let the toggle
  handler be invoked while no operation of the item is in flight (the invocation that
  queues a remote call). Right after the invocation the flag shown is \<open>\<not> b\<close>, and it
  stays so, with the handler still suspended on its queued call, whatever the user does
  before a settlement. If the call then fails, the flag shown is \<open>b\<close> again.
\<close>

theorem toggle_is_optimistic_and_rolls_back:
  assumes "\<not> isUpdating s" and "\<forall>e\<in>set es. \<not> is_settlement e"
  shows "isCompleted (handleToggleCompletion s) = (\<not> isCompleted s)
       \<and> isCompleted (run es (handleToggleCompletion s)) = (\<not> isCompleted s)
       \<and> awaiting (run es (handleToggleCompletion s)) = awaiting s @ [AwaitToggle (isCompleted s)]
       \<and> isCompleted (step (UpdateSettled (length (awaiting s)) (Inl err))
            (run es (handleToggleCompletion s))) = isCompleted s"
proof -
  let ?s1 = "handleToggleCompletion s"
  from assms(1) have s1: "isUpdating ?s1" "isCompleted ?s1 = (\<not> isCompleted s)"
      "awaiting ?s1 = awaiting s @ [AwaitToggle (isCompleted s)]"
    by (simp_all add: handleToggleCompletion_def Let_def)
  from run_in_flight [OF s1(1) assms(2)] s1
  have s2: "isCompleted (run es ?s1) = (\<not> isCompleted s)"
      "awaiting (run es ?s1) = awaiting s @ [AwaitToggle (isCompleted s)]"
    by simp_all
  have "isCompleted (step (UpdateSettled (length (awaiting s)) (Inl err)) (run es ?s1))
      = isCompleted s"
    by (simp add: s2(2) handleToggleCompletion_settled_def)
  with s1 s2 show ?thesis by simp
qed

theorem toggle_is_optimistic_and_rolls_back_witness:
  "\<not> isUpdating (mount [sample_task] sample_task)
   \<and> \<not> is_settlement TitleClick \<and> \<not> is_settlement (InputChange ''Buy bread'')
   \<and> \<not> isCompleted (mount [sample_task] sample_task)
   \<and> isCompleted (handleToggleCompletion (mount [sample_task] sample_task))
   \<and> isCompleted (run [TitleClick, InputChange ''Buy bread'']
        (handleToggleCompletion (mount [sample_task] sample_task)))
   \<and> \<not> isCompleted (step (UpdateSettled 0 (Inl ''Network error''))
        (run [TitleClick, InputChange ''Buy bread'']
          (handleToggleCompletion (mount [sample_task] sample_task))))"
proof -
  let ?s = "mount [sample_task] sample_task"
  have idle: "\<not> isUpdating ?s" and shown: "\<not> isCompleted ?s"
    and none: "length (awaiting ?s) = 0"
    by (simp_all add: mount_def sample_task_def)
  have user: "\<forall>e\<in>set [TitleClick, InputChange ''Buy bread'']. \<not> is_settlement e"
    by simp
  from toggle_is_optimistic_and_rolls_back [OF idle user, of "''Network error''"]
    idle user shown none
  show ?thesis by (simp del: run.simps step.simps)
qed




section \<open>Claims about the rename\<close>

lemma trim_whitespace_only:
  assumes "\<forall>c\<in>set v. is_whitespace c"
  shows "trim v = ''''"
proof -
  from assms have blank: "dropWhile is_whitespace v = []"
    by (induction v) simp_all
  show ?thesis
    by (simp only: trim_def blank rev.simps dropWhile.simps)
qed

text \<open>
  Claim C4. When the title typed consists of white space only (or is empty), so that its
  trimmed form is the empty string, the rename-save handler changes two state cells and
  nothing else: the title state becomes \<open>task.title\<close> and editing mode is left. It calls
  \<open>taskUpdateQueue.enqueue\<close> not at all, suspends on no promise, invokes no callback,
  logs no error, and leaves the page's list as it is; the title shown is \<open>task.title\<close>.
\<close>

theorem blank_rename_is_local_noop:
  assumes "\<forall>c\<in>set (title_state s). is_whitespace c"
  shows "trim (title_state s) = ''''
       \<and> handleEditSave s = s\<lparr>title_state := title (task s), isEditing := False\<rparr>
       \<and> enqueued (handleEditSave s) = enqueued s
       \<and> awaiting (handleEditSave s) = awaiting s
       \<and> notified (handleEditSave s) = notified s
       \<and> console_error (handleEditSave s) = console_error s
       \<and> tasks (handleEditSave s) = tasks s
       \<and> task (handleEditSave s) = task s
       \<and> rendered_title (handleEditSave s) = title (task s)"
  using trim_whitespace_only [OF assms]
  by (simp add: handleEditSave_def rendered_title_def)

theorem blank_rename_is_local_noop_witness:
  "title_state (run [TitleClick, InputChange [CHR '' '', CHR 0x09, CHR '' '']]
        (mount [sample_task] sample_task)) = [CHR '' '', CHR 0x09, CHR '' '']
   \<and> is_whitespace (CHR '' '') \<and> is_whitespace (CHR 0x09)
   \<and> enqueued (handleEditSave (run [TitleClick, InputChange [CHR '' '', CHR 0x09, CHR '' '']]
        (mount [sample_task] sample_task))) = []
   \<and> rendered_title (handleEditSave (run [TitleClick, InputChange [CHR '' '', CHR 0x09, CHR '' '']]
        (mount [sample_task] sample_task))) = ''Buy milk''"
proof -
  let ?s = "run [TitleClick, InputChange [CHR '' '', CHR 0x09, CHR '' '']]
        (mount [sample_task] sample_task)"
  have typed: "title_state ?s = [CHR '' '', CHR 0x09, CHR '' '']"
    and calls: "enqueued ?s = []" and original: "title (task ?s) = ''Buy milk''"
    by (simp_all add: handleEditStart_def mount_def sample_task_def)
  have blank: "\<forall>c\<in>set (title_state ?s). is_whitespace c"
    unfolding typed by (simp add: is_whitespace_def)
  have space: "is_whitespace (CHR '' '')" "is_whitespace (CHR 0x09)"
    by (simp_all add: is_whitespace_def)
  from blank_rename_is_local_noop [OF blank] typed space calls original
  show ?thesis by (simp del: run.simps add: rendered_title_def)
qed

text \<open>
  Claim C10. Every completed invocation of the rename-save handler ends out of editing
  mode. On the early return (an operation is in flight, or the trimmed title is empty)
  the handler suspends on nothing, leaves editing mode and resets the title state to
  \<open>task.title\<close>. Otherwise it suspends once, capturing \<open>task\<close>; whenever that suspended
  invocation is resumed, in whatever state the item is by then, editing mode is left,
  both on success and on failure, and on failure the title state is reset to the
  \<open>task.title\<close> captured at the invocation.
\<close>

theorem edit_save_leaves_editing_mode:
  assumes "i < length (awaiting s')" and "awaiting s' ! i = AwaitEdit (task s)"
  shows "awaiting (handleEditSave s) =
           (if isUpdating s \<or> trim (title_state s) = '''' then awaiting s
            else awaiting s @ [AwaitEdit (task s)])
       \<and> (isUpdating s \<or> trim (title_state s) = '''' \<longrightarrow>
             \<not> isEditing (handleEditSave s) \<and> title_state (handleEditSave s) = title (task s))
       \<and> \<not> isEditing (step (UpdateSettled i outcome) s')
       \<and> title_state (step (UpdateSettled i (Inl err)) s') = title (task s)"
  using assms
  by (cases outcome) (simp_all add: handleEditSave_def handleEditSave_settled_def onTaskUpdated_def)

theorem edit_save_leaves_editing_mode_witness:
  "0 < length (awaiting (run [SaveClick, InputBlur, TitleClick, InputChange ''x'']
        (run [TitleClick, InputChange ''Buy bread''] (mount [sample_task] sample_task))))
   \<and> awaiting (run [SaveClick, InputBlur, TitleClick, InputChange ''x'']
        (run [TitleClick, InputChange ''Buy bread''] (mount [sample_task] sample_task))) ! 0
      = AwaitEdit (task (run [TitleClick, InputChange ''Buy bread''] (mount [sample_task] sample_task)))
   \<and> isEditing (run [SaveClick, InputBlur, TitleClick, InputChange ''x'']
        (run [TitleClick, InputChange ''Buy bread''] (mount [sample_task] sample_task)))
   \<and> \<not> isEditing (step (UpdateSettled 0 (Inr sample_answer))
        (run [SaveClick, InputBlur, TitleClick, InputChange ''x'']
          (run [TitleClick, InputChange ''Buy bread''] (mount [sample_task] sample_task))))
   \<and> \<not> isEditing (step (UpdateSettled 0 (Inl ''Network error''))
        (run [SaveClick, InputBlur, TitleClick, InputChange ''x'']
          (run [TitleClick, InputChange ''Buy bread''] (mount [sample_task] sample_task))))
   \<and> title_state (step (UpdateSettled 0 (Inl ''Network error''))
        (run [SaveClick, InputBlur, TitleClick, InputChange ''x'']
          (run [TitleClick, InputChange ''Buy bread''] (mount [sample_task] sample_task))))
      = ''Buy milk''
   \<and> isUpdating (run [SaveClick, InputBlur, TitleClick, InputChange ''x'']
        (run [TitleClick, InputChange ''Buy bread''] (mount [sample_task] sample_task)))
   \<and> \<not> isEditing (handleEditSave (run [SaveClick, InputBlur, TitleClick, InputChange ''x'']
        (run [TitleClick, InputChange ''Buy bread''] (mount [sample_task] sample_task))))"
proof -
  let ?s = "run [TitleClick, InputChange ''Buy bread''] (mount [sample_task] sample_task)"
  let ?s' = "run [SaveClick, InputBlur, TitleClick, InputChange ''x''] ?s"
  have typed: "trim ''Buy bread'' = ''Buy bread''"
    by (simp add: trim_def is_whitespace_def)
  have before: "title (task ?s) = ''Buy milk''"
    by (simp add: handleEditStart_def mount_def sample_task_def)
  have later: "0 < length (awaiting ?s')" "awaiting ?s' ! 0 = AwaitEdit (task ?s)"
    by (simp_all add: handleEditSave_def handleEditStart_def handleEditCancel_def
        mount_def typed)
  have flight: "isEditing ?s'" "isUpdating ?s'" "task ?s' = task ?s"
    by (simp_all add: handleEditSave_def handleEditStart_def handleEditCancel_def
        mount_def typed)
  from flight later have again: "awaiting ?s' ! 0 = AwaitEdit (task ?s')"
    by (simp del: run.simps)
  from edit_save_leaves_editing_mode [OF later, of "Inr sample_answer" "''Network error''"]
    edit_save_leaves_editing_mode [OF later, of "Inl ''Network error''" "''Network error''"]
    edit_save_leaves_editing_mode [OF later(1) again, of "Inl ''Network error''" "''Network error''"]
    later flight before
  show ?thesis by (simp del: run.simps step.simps)
qed

section \<open>Claims about the deletion\<close>

lemma map_task_id_handleTaskUpdated:
  "map task_id (handleTaskUpdated updatedTask ts) = map task_id ts"
  by (induction ts) (simp_all add: handleTaskUpdated_def)

lemma step_keeps_identifiers:
  assumes "\<not> is_delete_success e"
  shows "map task_id (tasks (step e s)) = map task_id (tasks s)"
proof (cases e)
  case (UpdateSettled i outcome)
  then show ?thesis
    by (cases outcome)
       (simp_all add: handleToggleCompletion_settled_def handleEditSave_settled_def
          onTaskUpdated_def map_task_id_handleTaskUpdated split: suspended.splits)
next
  case (DeleteSettled i outcome)
  with assms obtain err where "outcome = Inl err"
    by (cases outcome) simp_all
  with DeleteSettled show ?thesis
    by (simp add: handleDelete_settled_def split: suspended.splits)
qed (simp_all add: handleToggleCompletion_def handleEditStart_def handleEditCancel_def
      handleEditSave_def handleDelete_def handleKeyDown_def Let_def)

lemma run_keeps_identifiers:
  assumes "\<forall>e\<in>set es. \<not> is_delete_success e"
  shows "map task_id (tasks (run es s)) = map task_id (tasks s)"
  using assms
proof (induction es arbitrary: s)
  case Nil
  then show ?case by simp
next
  case (Cons e es)
  then have "map task_id (tasks (run es (step e s))) = map task_id (tasks (step e s))"
    by simp
  with Cons.prems show ?case
    by (simp add: step_keeps_identifiers)
qed

text \<open>
  Claim C5. The delete handler removes nothing from the visible list when it is invoked.
  Along any sequence of events without a successful settlement of a delete, the visible
  list keeps its entries' identifiers in place, so the task stays visible. A failed
  settlement of a delete leaves the list exactly as it is. Only the successful
  settlement of the suspended delete removes the entries with the captured identifier.
\<close>

theorem delete_waits_for_confirmation:
  assumes "\<forall>e\<in>set es. \<not> is_delete_success e"
    and "i < length (awaiting s')" and "awaiting s' ! i = AwaitDelete task0"
  shows "tasks (handleDelete s) = tasks s
       \<and> map task_id (tasks (run es s)) = map task_id (tasks s)
       \<and> tasks (step (DeleteSettled i (Inl err)) s') = tasks s'
       \<and> tasks (step (DeleteSettled i (Inr ())) s')
           = filter (\<lambda>t. task_id t \<noteq> task_id task0) (tasks s')"
proof -
  have "tasks (handleDelete s) = tasks s"
    by (simp add: handleDelete_def)
  moreover note run_keeps_identifiers [OF assms(1), of s]
  moreover from assms(2,3) have "tasks (step (DeleteSettled i (Inl err)) s') = tasks s'"
    by (simp add: handleDelete_settled_def)
  moreover from assms(2,3) have "tasks (step (DeleteSettled i (Inr ())) s')
      = filter (\<lambda>t. task_id t \<noteq> task_id task0) (tasks s')"
    by (simp add: handleDelete_settled_def onTaskDeleted_def handleTaskDeleted_def)
  ultimately show ?thesis by simp
qed

theorem delete_waits_for_confirmation_witness:
  "\<not> is_delete_success DeleteClick \<and> \<not> is_delete_success DialogDeleteClick
   \<and> \<not> is_delete_success (DeleteSettled 0 (Inl ''Network error''))
   \<and> \<not> is_delete_success ToggleClick
   \<and> 0 < length (awaiting (run [DeleteClick, DialogDeleteClick] (mount [sample_task] sample_task)))
   \<and> awaiting (run [DeleteClick, DialogDeleteClick] (mount [sample_task] sample_task)) ! 0
       = AwaitDelete sample_task
   \<and> map task_id (tasks (run
        [DeleteClick, DialogDeleteClick, DeleteSettled 0 (Inl ''Network error''), ToggleClick]
        (mount [sample_task] sample_task))) = [42]
   \<and> tasks (step (DeleteSettled 0 (Inl ''Network error''))
        (run [DeleteClick, DialogDeleteClick] (mount [sample_task] sample_task))) = [sample_task]
   \<and> tasks (step (DeleteSettled 0 (Inr ()))
        (run [DeleteClick, DialogDeleteClick] (mount [sample_task] sample_task))) = []"
proof -
  let ?s' = "run [DeleteClick, DialogDeleteClick] (mount [sample_task] sample_task)"
  have quiet: "\<forall>e\<in>set [DeleteClick, DialogDeleteClick,
      DeleteSettled 0 (Inl ''Network error''), ToggleClick]. \<not> is_delete_success e"
    by simp
  have flight: "0 < length (awaiting ?s')" "awaiting ?s' ! 0 = AwaitDelete sample_task"
    by (simp_all add: handleDelete_def mount_def)
  have shown: "tasks ?s' = [sample_task]" "tasks (mount [sample_task] sample_task) = [sample_task]"
    "task_id sample_task = 42"
    by (simp_all add: handleDelete_def mount_def sample_task_def)
  from delete_waits_for_confirmation [OF quiet flight,
      of "mount [sample_task] sample_task" "''Network error''"]
    quiet flight shown
  show ?thesis by (simp del: run.simps step.simps)
qed

section \<open>Claims about the re-entrancy guard\<close>

lemma guarded_mount: "guarded (mount ts t)"
  by (simp add: guarded_def mount_def)

lemma guarded_step:
  assumes "guarded s"
  shows "guarded (step e s)"
proof (cases e)
  case (UpdateSettled i outcome)
  show ?thesis
  proof (cases "i < length (awaiting s)")
    case True
    with assms have "drop_nth i (awaiting s) = []"
      by (simp add: guarded_def drop_nth_single)
    with True UpdateSettled assms show ?thesis
      by (cases outcome)
         (simp_all add: guarded_def handleToggleCompletion_settled_def
            handleEditSave_settled_def onTaskUpdated_def split: suspended.splits)
  next
    case False
    with UpdateSettled assms show ?thesis by simp
  qed
next
  case (DeleteSettled i outcome)
  show ?thesis
  proof (cases "i < length (awaiting s)")
    case True
    with assms have "drop_nth i (awaiting s) = []"
      by (simp add: guarded_def drop_nth_single)
    with True DeleteSettled assms show ?thesis
      by (cases outcome)
         (simp_all add: guarded_def handleDelete_settled_def onTaskDeleted_def
            split: suspended.splits)
  next
    case False
    with DeleteSettled assms show ?thesis by simp
  qed
qed (use assms in \<open>auto simp: guarded_def handleToggleCompletion_def handleEditStart_def
      handleEditCancel_def handleEditSave_def handleDelete_def handleKeyDown_def Let_def\<close>)

lemma guarded_run: "guarded s \<Longrightarrow> guarded (run es s)"
  by (induction es arbitrary: s) (simp_all add: guarded_step)

text \<open>
  Claim C6. In every state that a mounted task item reaches, by any sequence of user
  actions and settlements, at most one handler invocation is suspended on a queued
  remote operation. While one is suspended, invoking the toggle handler or the delete
  handler changes nothing, and the rename-save handler enqueues nothing and suspends on
  nothing: the new action is ignored, no second operation is started.
\<close>

theorem one_operation_in_flight:
  "length (awaiting (run es (mount ts t))) \<le> 1
   \<and> (awaiting (run es (mount ts t)) \<noteq> [] \<longrightarrow>
        handleToggleCompletion (run es (mount ts t)) = run es (mount ts t)
      \<and> handleDelete (run es (mount ts t)) = run es (mount ts t)
      \<and> enqueued (handleEditSave (run es (mount ts t))) = enqueued (run es (mount ts t))
      \<and> awaiting (handleEditSave (run es (mount ts t))) = awaiting (run es (mount ts t)))"
proof -
  have "guarded (run es (mount ts t))"
    by (simp add: guarded_run guarded_mount)
  then show ?thesis
    by (auto simp: guarded_def handleToggleCompletion_def handleDelete_def handleEditSave_def)
qed

theorem one_operation_in_flight_witness:
  "awaiting (run [ToggleClick] (mount [sample_task] sample_task)) \<noteq> []
   \<and> length (awaiting (run [ToggleClick, ToggleClick, DialogDeleteClick]
        (mount [sample_task] sample_task))) \<le> 1
   \<and> handleToggleCompletion (run [ToggleClick] (mount [sample_task] sample_task))
       = run [ToggleClick] (mount [sample_task] sample_task)
   \<and> handleDelete (run [ToggleClick] (mount [sample_task] sample_task))
       = run [ToggleClick] (mount [sample_task] sample_task)
   \<and> enqueued (handleEditSave (run [ToggleClick] (mount [sample_task] sample_task)))
       = enqueued (run [ToggleClick] (mount [sample_task] sample_task))"
proof -
  have flight: "awaiting (run [ToggleClick] (mount [sample_task] sample_task)) \<noteq> []"
    by (simp add: handleToggleCompletion_def mount_def Let_def)
  from one_operation_in_flight [of "[ToggleClick]" "[sample_task]" sample_task]
    one_operation_in_flight [of "[ToggleClick, ToggleClick, DialogDeleteClick]"
      "[sample_task]" sample_task]
    flight
  show ?thesis by (simp del: run.simps)
qed

section \<open>Claims about failed requests\<close>






section \<open>Claims about the keyed serial queue\<close>

lemma serial_empty: "serial k [] empty_queue"
  by (simp add: serial_def empty_queue_def settled_under_def started_under_def lane_of_def)

lemma serial_enqueue_same:
  assumes "serial k history q"
  shows "serial k (history @ [a]) (enqueue k a q)"
proof (cases "lanes q k")
  case None
  with assms show ?thesis
    by (simp add: serial_def enqueue_def settled_under_def started_under_def lane_of_def)
next
  case (Some waiting)
  with assms obtain b rest where "waiting = b # rest"
    by (cases waiting) (simp_all add: serial_def)
  with Some assms show ?thesis
    by (simp add: serial_def enqueue_def settled_under_def started_under_def lane_of_def)
qed

lemma serial_enqueue_other:
  assumes "serial k history q" and "k' \<noteq> k"
  shows "serial k history (enqueue k' a q)"
  using assms
  by (cases "lanes q k'")
     (simp_all add: serial_def enqueue_def settled_under_def started_under_def lane_of_def)

lemma serial_settle_same:
  assumes "serial k history q"
  shows "serial k history (settle k success q)"
proof (cases "lanes q k")
  case None
  with assms show ?thesis by (simp add: settle_def)
next
  case (Some waiting)
  with assms obtain a rest where waiting: "waiting = a # rest"
    by (cases waiting) (simp_all add: serial_def)
  show ?thesis
  proof (cases rest)
    case Nil
    with Some waiting assms show ?thesis
      by (simp add: serial_def settle_def settled_under_def started_under_def lane_of_def)
  next
    case (Cons b rest')
    with Some waiting assms show ?thesis
      by (simp add: serial_def settle_def settled_under_def started_under_def lane_of_def)
  qed
qed

lemma serial_settle_other:
  assumes "serial k history q" and "k' \<noteq> k"
  shows "serial k history (settle k' success q)"
  using assms
  by (simp add: serial_def settle_def settled_under_def started_under_def lane_of_def
      split: option.splits list.splits)

lemma serial_step:
  assumes "serial k history q"
  shows "serial k (history @ enqueued_under k [e]) (queue_step e q)"
proof (cases e)
  case (Enqueue k' a)
  with assms show ?thesis
    by (cases "k' = k") (simp_all add: serial_enqueue_same serial_enqueue_other)
next
  case (Settle k' success)
  with assms show ?thesis
    by (cases "k' = k") (simp_all add: serial_settle_same serial_settle_other)
qed

lemma enqueued_under_Cons:
  "enqueued_under k (e # es) = enqueued_under k [e] @ enqueued_under k es"
  by (cases e) simp_all

lemma serial_run:
  assumes "serial k history q"
  shows "serial k (history @ enqueued_under k es) (queue_run es q)"
  using assms
proof (induction es arbitrary: history q)
  case Nil
  then show ?case by simp
next
  case (Cons e es)
  from Cons.prems have "serial k (history @ enqueued_under k [e]) (queue_step e q)"
    by (rule serial_step)
  then have "serial k ((history @ enqueued_under k [e]) @ enqueued_under k es)
      (queue_run es (queue_step e q))"
    by (rule Cons.IH)
  then show ?case
    by (simp add: enqueued_under_Cons [of k e es])
qed

text \<open>
  Claim C1. Take any sequence of events on the queue: actions enqueued under any keys,
  and settlements of executing actions arriving in any order and after any delay. At the
  end of it, for every key, the actions settled under the key followed by those still in
  its lane are exactly the actions enqueued under the key, in enqueue order: settlement
  order is enqueue order. The actions started under the key are the settled ones
  followed by at most one, the first of the lane: an action is started only when every
  action enqueued before it under the key has settled, with success or with failure.
\<close>

theorem settlement_follows_enqueue_order:
  "enqueued_under k es
     = settled_under k (queue_run es empty_queue) @ lane_of k (queue_run es empty_queue)
   \<and> started_under k (queue_run es empty_queue)
     = settled_under k (queue_run es empty_queue) @ take 1 (lane_of k (queue_run es empty_queue))"
  using serial_run [OF serial_empty, of k es]
  by (simp add: serial_def)


text \<open>
  A run of the queue: two actions under one key; the second is started only by the
  settlement of the first, which here is a failure.
\<close>

lemma failure_starts_next_action:
  "started (queue_run [Enqueue k a, Enqueue k b] empty_queue) = [(k, a)]
   \<and> started (queue_run [Enqueue k a, Enqueue k b, Settle k False] empty_queue)
       = [(k, a), (k, b)]
   \<and> settled (queue_run [Enqueue k a, Enqueue k b, Settle k False, Settle k True] empty_queue)
       = [(k, a, False), (k, b, True)]
   \<and> lanes (queue_run [Enqueue k a, Enqueue k b, Settle k False, Settle k True] empty_queue) k
       = None"
  by (simp add: enqueue_def settle_def empty_queue_def)

section \<open>Claims about independent keys\<close>

lemma number_toString_42: "number_toString 42 = ''42''"
  by code_simp

lemma trim_Buy_bread: "trim ''Buy bread'' = ''Buy bread''"
  by (simp add: trim_def is_whitespace_def)

text \<open>
  Claim C7, as stated, fails in its second half: with a toggle of the task in flight, the
  user opens the editor, types a new title and presses Enter. The rename-save handler
  enqueues nothing: the only call made to the queue is still the toggle's, and the only
  suspended handler is the toggle's.
\<close>

theorem rename_during_toggle_is_not_enqueued:
  "awaiting (run [ToggleClick, TitleClick, InputChange ''Buy bread'']
       (mount [sample_task] sample_task)) = [AwaitToggle False]
   \<and> trim (title_state (run [ToggleClick, TitleClick, InputChange ''Buy bread'']
       (mount [sample_task] sample_task))) = ''Buy bread''
   \<and> enqueued (run [ToggleClick, TitleClick, InputChange ''Buy bread'', InputKeyDown ''Enter'']
       (mount [sample_task] sample_task))
      = [(''toggle-42'', UpdateTask 42 (Is_completed True))]
   \<and> awaiting (run [ToggleClick, TitleClick, InputChange ''Buy bread'', InputKeyDown ''Enter'']
       (mount [sample_task] sample_task)) = [AwaitToggle False]"
  by (simp add: handleToggleCompletion_def handleEditStart_def handleEditSave_def
      handleKeyDown_def mount_def sample_task_def toggle_key_def number_toString_42
      trim_Buy_bread Let_def)

text \<open>
  Claim C7, amended. Enqueueing an operation for one key never blocks on, or waits for,
  a pending operation under a different key: it leaves every other lane as it is, and
  when its own lane is idle the operation is started at once, whatever the other lanes
  hold. The task item, however, guards its three handlers with one \<open>isUpdating\<close> flag:
  while any operation of the entity is in flight, a toggle included, the rename-save
  handler enqueues nothing and suspends on nothing; it resets the title state to
  \<open>task.title\<close> and leaves editing mode.
\<close>

theorem lanes_independent_item_guarded:
  "(k' \<noteq> k \<longrightarrow> lanes (enqueue k a q) k' = lanes q k')
   \<and> (lanes q k = None \<longrightarrow> started (enqueue k a q) = started q @ [(k, a)])
   \<and> (isUpdating s \<longrightarrow>
         enqueued (handleEditSave s) = enqueued s
       \<and> awaiting (handleEditSave s) = awaiting s
       \<and> title_state (handleEditSave s) = title (task s)
       \<and> \<not> isEditing (handleEditSave s))"
  by (simp add: enqueue_def handleEditSave_def split: option.splits)

theorem lanes_independent_item_guarded_witness:
  "toggle_key sample_task \<noteq> edit_key sample_task
   \<and> lanes (enqueue (toggle_key sample_task) (UpdateTask 42 (Is_completed True)) empty_queue)
        (edit_key sample_task) = None
   \<and> lanes (enqueue (edit_key sample_task) (UpdateTask 42 (Title ''Buy bread''))
        (enqueue (toggle_key sample_task) (UpdateTask 42 (Is_completed True)) empty_queue))
        (toggle_key sample_task) = Some [UpdateTask 42 (Is_completed True)]
   \<and> started (enqueue (edit_key sample_task) (UpdateTask 42 (Title ''Buy bread''))
        (enqueue (toggle_key sample_task) (UpdateTask 42 (Is_completed True)) empty_queue))
      = [(toggle_key sample_task, UpdateTask 42 (Is_completed True)),
         (edit_key sample_task, UpdateTask 42 (Title ''Buy bread''))]
   \<and> isUpdating (run [ToggleClick, TitleClick, InputChange ''Buy bread'']
        (mount [sample_task] sample_task))
   \<and> enqueued (handleEditSave (run [ToggleClick, TitleClick, InputChange ''Buy bread'']
        (mount [sample_task] sample_task)))
      = enqueued (run [ToggleClick, TitleClick, InputChange ''Buy bread'']
        (mount [sample_task] sample_task))"
proof -
  let ?toggle = "UpdateTask 42 (Is_completed True)"
  let ?q = "enqueue (toggle_key sample_task) ?toggle empty_queue"
  let ?s = "run [ToggleClick, TitleClick, InputChange ''Buy bread'']
        (mount [sample_task] sample_task)"
  have keys: "toggle_key sample_task \<noteq> edit_key sample_task"
    by (simp add: toggle_key_def edit_key_def)
  then have busy: "lanes ?q (edit_key sample_task) = None"
    "lanes ?q (toggle_key sample_task) = Some [?toggle]"
    "started ?q = [(toggle_key sample_task, ?toggle)]"
    by (simp_all add: enqueue_def empty_queue_def)
  have flight: "isUpdating ?s"
    by (simp add: handleToggleCompletion_def handleEditStart_def mount_def Let_def)
  from lanes_independent_item_guarded
      [of "toggle_key sample_task" "edit_key sample_task" "UpdateTask 42 (Title ''Buy bread'')"
        ?q ?s]
    keys busy flight
  show ?thesis by (simp del: run.simps)
qed

end
